theory Spec2Isabelle
  imports Complex_Main
begin

section \<open>Data model: courses/models.py and core/models.py\<close>

text \<open>
  The relational store is embedded as a record of tables, each table a list of rows in
  insertion order. Primary keys, users and foreign keys are natural numbers, timestamps
  are natural numbers, Python's unbounded integers are \<open>int\<close>. Strings are byte lists
  (UTF-8). Only the columns that the modelled functions read or write are kept.

  The catalogue is read-only for the workflow: a \<open>video\<close> row carries the \<open>training\<close>
  object that \<open>video.training\<close> resolves to, and a training carries its module
  (both foreign keys are mandatory and cascade on delete, so they always resolve).
  A progress row and a certificate row refer to their video and training by key, so that
  the query \<open>video__training=training\<close> is the join the ORM runs.
\<close>

record module =
  m_id :: nat
  m_title :: string

record training =
  t_id :: nat
  t_module :: module
  t_title :: string

record video =
  v_id :: nat
  v_training :: training
  v_title :: string
  duration_seconds :: int
  v_is_active :: bool

record user_progress =
  up_id :: nat
  up_user :: nat
  up_video :: nat
  progress_seconds :: int
  completed :: bool
  last_watched :: nat
  completed_at :: "nat option"

record user_certificate =
  uc_id :: nat
  uc_user :: nat
  uc_training :: nat
  certificate_code :: string
  issued_at :: nat

datatype action = CREATE | UPDATE | DELETE | LOGIN | LOGOUT | VIEW | COMPLETE

record audit_log =
  al_user :: "nat option"
  al_action :: action
  model_name :: string
  object_id :: string
  description :: string
  ip_address :: "string option"
  user_agent :: string
  al_timestamp :: nat

record db =
  videos :: "video list"
  progress_tbl :: "user_progress list"
  certificates :: "user_certificate list"
  audit_logs :: "audit_log list"

text \<open>
  What a call reads from outside the store: the clock (\<open>timezone.now()\<close>, also behind
  \<open>auto_now\<close> and \<open>auto_now_add\<close>; one reading per call) and the value that
  \<open>uuid.uuid4\<close> returns when a certificate row is created.
\<close>

record env =
  now :: nat
  uuid4 :: string

text \<open>The auto-increment primary key of a new row: above every key of the table.\<close>

definition fresh_id :: "nat list \<Rightarrow> nat" where
  "fresh_id ids = Suc (foldr max ids 0)"

text \<open>Python's \<open>str\<close> on a non-negative integer.\<close>

fun str_nat :: "nat \<Rightarrow> string" where
  "str_nat n =
     (if n < 10 then [char_of (48 + n)]
      else str_nat (n div 10) @ [char_of (48 + n mod 10)])"

declare str_nat.simps [simp del]

section \<open>Derived values: models.py\<close>

text \<open>
  \<open>Training.total_videos\<close> (models.py 71-73) and the same query in
  \<open>check_training_completion\<close> (views.py 576): the active videos of the training.
\<close>

definition total_videos :: "db \<Rightarrow> training \<Rightarrow> nat" where
  "total_videos s tr =
     length [v \<leftarrow> videos s. t_id (v_training v) = t_id tr \<and> v_is_active v]"

text \<open>
  The query \<open>UserProgress.objects.filter(user=user, video__training=training,
  completed=True).count()\<close> of models.py 81-85 and views.py 577-581: the user's completed
  rows joined with the video table on the video key, the video being of the training.
  The video's \<open>is_active\<close> column is not part of the query.
\<close>

definition completed_videos :: "db \<Rightarrow> nat \<Rightarrow> training \<Rightarrow> nat" where
  "completed_videos s user tr =
     length (concat (map
       (\<lambda>p. [v \<leftarrow> videos s. v_id v = up_video p \<and> t_id (v_training v) = t_id tr])
       [p \<leftarrow> progress_tbl s. up_user p = user \<and> completed p]))"

text \<open>
  \<open>Training.get_user_progress\<close> (models.py 75-87). Python's true division of two
  integers is taken exactly, over the rationals.
\<close>

definition get_user_progress :: "db \<Rightarrow> training \<Rightarrow> nat \<Rightarrow> rat" where
  "get_user_progress s tr user =
     (if total_videos s tr = 0 then 0
      else (of_nat (completed_videos s user tr) / of_nat (total_videos s tr)) * 100)"

text \<open>
  \<open>UserProgress.progress_percentage\<close> (models.py 172-177); the first argument is the row
  that \<open>self.video\<close> resolves to. The division is exact here too.
\<close>

definition progress_percentage :: "video \<Rightarrow> user_progress \<Rightarrow> rat" where
  "progress_percentage vd p =
     (if duration_seconds vd = 0 then 0
      else min ((of_int (progress_seconds p) / of_int (duration_seconds vd)) * 100) 100)"

section \<open>The update serializer: courses/serializers.py 116-136\<close>

text \<open>
  \<open>request.data\<close> as the framework's field conversion sees it. The serializer declares
  two fields, \<open>progress_seconds\<close> (a model \<open>IntegerField\<close>, no validator declared) and
  \<open>completed\<close> (a model \<open>BooleanField\<close>), and is built with \<open>partial=True\<close>, so for each
  field the key is absent, or its raw value does not convert to the field's type (with
  the framework's messages), or it converts to a value of that type. Neither the model
  field nor the serializer declares a bound, so an integer of the payload, negative or
  not, arrives as \<open>Valid\<close>.
\<close>

datatype 'a field_input = Omitted | Invalid "string list" | Valid 'a

record request_data =
  progress_seconds_in :: "int field_input"
  completed_in :: "bool field_input"

record validated_data =
  vd_progress_seconds :: "int option"
  vd_completed :: "bool option"

type_synonym errors = "(string \<times> string list) list"

fun field_errors :: "string \<Rightarrow> 'a field_input \<Rightarrow> errors" where
  "field_errors name (Invalid msgs) = [(name, msgs)]"
| "field_errors name _ = []"

fun field_value :: "'a field_input \<Rightarrow> 'a option" where
  "field_value (Valid x) = Some x"
| "field_value _ = None"

text \<open>\<open>serializer.is_valid()\<close>: the errors of every field, or the validated data.\<close>

definition is_valid :: "request_data \<Rightarrow> errors + validated_data" where
  "is_valid d =
     (let errs = field_errors ''progress_seconds'' (progress_seconds_in d)
               @ field_errors ''completed'' (completed_in d)
      in if errs \<noteq> [] then Inl errs
         else Inr \<lparr>vd_progress_seconds = field_value (progress_seconds_in d),
                   vd_completed = field_value (completed_in d)\<rparr>)"

text \<open>
  \<open>instance.save()\<close> on an existing row: the row with the instance's primary key is
  replaced, \<open>last_watched\<close> (\<open>auto_now\<close>) taking the current time.
\<close>

definition save_progress :: "env \<Rightarrow> user_progress \<Rightarrow> db \<Rightarrow> user_progress \<times> db" where
  "save_progress e inst s =
     (let inst' = inst\<lparr>last_watched := now e\<rparr>
      in (inst', s\<lparr>progress_tbl :=
            map (\<lambda>q. if up_id q = up_id inst' then inst' else q) (progress_tbl s)\<rparr>))"

text \<open>\<open>UserProgressUpdateSerializer.update\<close> (serializers.py 124-136).\<close>

definition serializer_update ::
  "env \<Rightarrow> user_progress \<Rightarrow> validated_data \<Rightarrow> db \<Rightarrow> user_progress \<times> db" where
  "serializer_update e inst vd s =
     (let i1 = inst\<lparr>progress_seconds :=
                 (case vd_progress_seconds vd of None \<Rightarrow> progress_seconds inst
                  | Some n \<Rightarrow> n)\<rparr>;
          i2 = (if (case vd_completed vd of None \<Rightarrow> False | Some b \<Rightarrow> b)
                   \<and> \<not> completed i1
                then i1\<lparr>completed := True, completed_at := Some (now e)\<rparr>
                else i1)
      in save_progress e i2 s)"

section \<open>The views: courses/views.py\<close>

datatype exn = MultipleObjectsReturned

text \<open>The fields of \<open>UserProgressSerializer\<close> (serializers.py 99-114).\<close>

record progress_data =
  pd_id :: nat
  pd_progress_seconds :: int
  pd_completed :: bool
  pd_last_watched :: nat
  pd_completed_at :: "nat option"
  pd_video_title :: string
  pd_training_title :: string
  pd_module_title :: string
  pd_progress_percentage :: rat

datatype response =
    HTTP_200_OK progress_data
  | HTTP_400_BAD_REQUEST errors
  | HTTP_404_NOT_FOUND
  | HTTP_500 exn

definition UserProgressSerializer :: "video \<Rightarrow> user_progress \<Rightarrow> progress_data" where
  "UserProgressSerializer vd p =
     \<lparr>pd_id = up_id p, pd_progress_seconds = progress_seconds p,
      pd_completed = completed p, pd_last_watched = last_watched p,
      pd_completed_at = completed_at p, pd_video_title = v_title vd,
      pd_training_title = t_title (v_training vd),
      pd_module_title = m_title (t_module (v_training vd)),
      pd_progress_percentage = progress_percentage vd p\<rparr>"

text \<open>
  The request: the authenticated user (the view's permission class admits no other
  request to the body), the payload and the two headers the audit entry reads.
\<close>

record request =
  req_user :: nat
  req_data :: request_data
  http_x_forwarded_for :: "string option"
  remote_addr :: "string option"
  http_user_agent :: "string option"

text \<open>\<open>get_client_ip\<close> (views.py 602-609).\<close>

definition get_client_ip :: "request \<Rightarrow> string option" where
  "get_client_ip r =
     (case http_x_forwarded_for r of
        Some x \<Rightarrow> (if x \<noteq> [] then Some (takeWhile (\<lambda>c. c \<noteq> CHR '','') x)
                   else remote_addr r)
      | None \<Rightarrow> remote_addr r)"

text \<open>
  \<open>get_object_or_404(Video, id=video_id, is_active=True)\<close>: no matching row is the 404,
  more than one makes \<open>get\<close> raise.
\<close>

definition get_object_or_404 :: "db \<Rightarrow> nat \<Rightarrow> response + video" where
  "get_object_or_404 s video_id =
     (case [v \<leftarrow> videos s. v_id v = video_id \<and> v_is_active v] of
        [] \<Rightarrow> Inl HTTP_404_NOT_FOUND
      | [v] \<Rightarrow> Inr v
      | _ \<Rightarrow> Inl (HTTP_500 MultipleObjectsReturned))"

text \<open>
  \<open>UserProgress.objects.get_or_create(user=..., video=..., defaults={'progress_seconds': 0})\<close>
  (views.py 331-335): the row of the pair if there is one, else a new row with the model's
  defaults, appended to the table.
\<close>

definition progress_get_or_create ::
  "env \<Rightarrow> nat \<Rightarrow> video \<Rightarrow> db \<Rightarrow> exn + (user_progress \<times> bool \<times> db)" where
  "progress_get_or_create e user vd s =
     (case [p \<leftarrow> progress_tbl s. up_user p = user \<and> up_video p = v_id vd] of
        [] \<Rightarrow>
          (let p = \<lparr>up_id = fresh_id (map up_id (progress_tbl s)), up_user = user,
                    up_video = v_id vd, progress_seconds = 0, completed = False,
                    last_watched = now e, completed_at = None\<rparr>
           in Inr (p, True, s\<lparr>progress_tbl := progress_tbl s @ [p]\<rparr>))
      | [p] \<Rightarrow> Inr (p, False, s)
      | _ \<Rightarrow> Inl MultipleObjectsReturned)"

text \<open>\<open>UserCertificate.objects.get_or_create(user=user, training=training)\<close> (views.py 585-588).\<close>

definition certificate_get_or_create ::
  "env \<Rightarrow> nat \<Rightarrow> training \<Rightarrow> db \<Rightarrow> exn + (user_certificate \<times> bool \<times> db)" where
  "certificate_get_or_create e user tr s =
     (case [c \<leftarrow> certificates s. uc_user c = user \<and> uc_training c = t_id tr] of
        [] \<Rightarrow>
          (let c = \<lparr>uc_id = fresh_id (map uc_id (certificates s)), uc_user = user,
                    uc_training = t_id tr, certificate_code = uuid4 e,
                    issued_at = now e\<rparr>
           in Inr (c, True, s\<lparr>certificates := certificates s @ [c]\<rparr>))
      | [c] \<Rightarrow> Inr (c, False, s)
      | _ \<Rightarrow> Inl MultipleObjectsReturned)"

text \<open>\<open>AuditLog.objects.create(...)\<close>.\<close>

definition audit_create :: "audit_log \<Rightarrow> db \<Rightarrow> db" where
  "audit_create a s = s\<lparr>audit_logs := audit_logs s @ [a]\<rparr>"

text \<open>
  \<open>check_training_completion\<close> (views.py 572-600). The function returns nothing; the
  result is the exception it raises, if any, and the store it leaves.
\<close>

definition check_training_completion ::
  "env \<Rightarrow> nat \<Rightarrow> training \<Rightarrow> db \<Rightarrow> exn option \<times> db" where
  "check_training_completion e user tr s =
     (let total = total_videos s tr;
          done = completed_videos s user tr
      in if total > 0 \<and> done = total then
           (case certificate_get_or_create e user tr s of
              Inl x \<Rightarrow> (Some x, s)
            | Inr (certificate, created, s1) \<Rightarrow>
                if created then
                  (None, audit_create
                     \<lparr>al_user = Some user, al_action = CREATE,
                      model_name = ''UserCertificate'',
                      object_id = str_nat (uc_id certificate),
                      description = ''Certificado emitido para o treinamento '' @ t_title tr,
                      ip_address = Some ''127.0.0.1'', user_agent = ''Sistema'',
                      al_timestamp = now e\<rparr> s1)
                else (None, s1))
         else (None, s))"

text \<open>
  \<open>update_video_progress\<close> (views.py 322-359): the response and the store the request
  leaves. An exception that escapes the view is the 500 response, with the writes made
  before it kept.
\<close>

definition update_video_progress :: "env \<Rightarrow> request \<Rightarrow> nat \<Rightarrow> db \<Rightarrow> response \<times> db" where
  "update_video_progress e r video_id s =
     (case get_object_or_404 s video_id of
        Inl resp \<Rightarrow> (resp, s)
      | Inr vd \<Rightarrow>
         (case progress_get_or_create e (req_user r) vd s of
            Inl x \<Rightarrow> (HTTP_500 x, s)
          | Inr (progress0, created, s1) \<Rightarrow>
             (case is_valid (req_data r) of
                Inl errs \<Rightarrow> (HTTP_400_BAD_REQUEST errs, s1)
              | Inr vdata \<Rightarrow>
                 (let (progress, s2) = serializer_update e progress0 vdata s1;
                      act = (if completed progress then COMPLETE else UPDATE);
                      s3 = audit_create
                             \<lparr>al_user = Some (req_user r), al_action = act,
                              model_name = ''UserProgress'',
                              object_id = str_nat (up_id progress),
                              description = ''Progresso do v'' @ [CHR 0xC3, CHR 0xAD]
                                 @ ''deo '' @ v_title vd @ '' atualizado'',
                              ip_address = get_client_ip r,
                              user_agent = (case http_user_agent r of None \<Rightarrow> ''''
                                            | Some a \<Rightarrow> a),
                              al_timestamp = now e\<rparr> s2
                  in if completed progress then
                       (case check_training_completion e (req_user r) (v_training vd) s3 of
                          (Some x, s4) \<Rightarrow> (HTTP_500 x, s4)
                        | (None, s4) \<Rightarrow> (HTTP_200_OK (UserProgressSerializer vd progress), s4))
                     else (HTTP_200_OK (UserProgressSerializer vd progress), s3)))))"

text \<open>A sequence of requests to the endpoint, each with its own clock reading.\<close>

fun run :: "(env \<times> request \<times> nat) list \<Rightarrow> db \<Rightarrow> db" where
  "run [] s = s"
| "run ((e, r, video_id) # cs) s = run cs (snd (update_video_progress e r video_id s))"

text \<open>The completion check invoked once for each clock reading of the list.\<close>

fun check_repeatedly :: "env list \<Rightarrow> nat \<Rightarrow> training \<Rightarrow> db \<Rightarrow> db" where
  "check_repeatedly [] user tr s = s"
| "check_repeatedly (e # es) user tr s =
     check_repeatedly es user tr (snd (check_training_completion e user tr s))"

section \<open>Storage constraints and row relations\<close>

text \<open>
  The rows of a (user, video) pair and of a (user, training) pair, and the constraints the
  models declare for the storage layer: the primary key of each table and
  \<open>unique_together\<close> on \<open>['user', 'video']\<close> (models.py 162) and on
  \<open>['user', 'training']\<close> (models.py 207).
\<close>

definition progress_rows :: "db \<Rightarrow> nat \<Rightarrow> nat \<Rightarrow> user_progress list" where
  "progress_rows s user video_id =
     [p \<leftarrow> progress_tbl s. up_user p = user \<and> up_video p = video_id]"

definition certificate_rows :: "db \<Rightarrow> nat \<Rightarrow> nat \<Rightarrow> user_certificate list" where
  "certificate_rows s user training_id =
     [c \<leftarrow> certificates s. uc_user c = user \<and> uc_training c = training_id]"

definition progress_constraints :: "db \<Rightarrow> bool" where
  "progress_constraints s \<longleftrightarrow>
     distinct (map up_id (progress_tbl s))
     \<and> distinct (map (\<lambda>p. (up_user p, up_video p)) (progress_tbl s))"

definition certificate_constraints :: "db \<Rightarrow> bool" where
  "certificate_constraints s \<longleftrightarrow>
     distinct (map uc_id (certificates s))
     \<and> distinct (map (\<lambda>c. (uc_user c, uc_training c)) (certificates s))"

definition video_constraints :: "db \<Rightarrow> bool" where
  "video_constraints s \<longleftrightarrow> distinct (map v_id (videos s))"

definition timestamps_consistent :: "db \<Rightarrow> bool" where
  "timestamps_consistent s \<longleftrightarrow>
     list_all (\<lambda>p. completed p = (completed_at p \<noteq> None)) (progress_tbl s)"

definition row_evolves :: "env \<Rightarrow> user_progress \<Rightarrow> user_progress \<Rightarrow> bool" where
  "row_evolves e q q' \<longleftrightarrow>
     up_id q' = up_id q \<and> up_user q' = up_user q \<and> up_video q' = up_video q
     \<and> (if completed q then completed q' \<and> completed_at q' = completed_at q
         else completed_at q' = (if completed q' then Some (now e) else completed_at q))"

definition row_persists :: "user_progress \<Rightarrow> user_progress \<Rightarrow> bool" where
  "row_persists q q' \<longleftrightarrow>
     up_id q' = up_id q \<and> up_user q' = up_user q \<and> up_video q' = up_video q
     \<and> (if completed q then completed q' \<and> completed_at q' = completed_at q else True)"

section \<open>Concrete stores\<close>

text \<open>
  One module, one training with an active video A (300 seconds) and an inactive
  video B (120 seconds), and user 7.
\<close>

definition demo_module :: module where
  "demo_module = \<lparr>m_id = 1, m_title = ''Seguranca''\<rparr>"

definition demo_training :: training where
  "demo_training = \<lparr>t_id = 1, t_module = demo_module, t_title = ''EPI''\<rparr>"

definition video_a :: video where
  "video_a = \<lparr>v_id = 1, v_training = demo_training, v_title = ''A'',
              duration_seconds = 300, v_is_active = True\<rparr>"

definition video_b :: video where
  "video_b = \<lparr>v_id = 2, v_training = demo_training, v_title = ''B'',
              duration_seconds = 120, v_is_active = False\<rparr>"

definition done_row :: "nat \<Rightarrow> nat \<Rightarrow> nat \<Rightarrow> user_progress" where
  "done_row k u v = \<lparr>up_id = k, up_user = u, up_video = v, progress_seconds = 300,
       completed = True, last_watched = 5, completed_at = Some 5\<rparr>"

text \<open>User 7 has completed both videos, the inactive one included.\<close>

definition db_both_done :: db where
  "db_both_done = \<lparr>videos = [video_a, video_b],
      progress_tbl = [done_row 1 7 1, done_row 2 7 2],
      certificates = [], audit_logs = []\<rparr>"

text \<open>A training whose only video is inactive, completed by user 7.\<close>

definition db_no_active :: db where
  "db_no_active = \<lparr>videos = [video_b], progress_tbl = [done_row 1 7 2],
      certificates = [], audit_logs = []\<rparr>"

text \<open>A clock reading and a generated code.\<close>

definition env0 :: env where
  "env0 = \<lparr>now = 9, uuid4 = ''c0de''\<rparr>"

text \<open>No progress rows and no certificates over the same catalogue.\<close>

definition db_fresh :: db where
  "db_fresh = \<lparr>videos = [video_a, video_b], progress_tbl = [],
      certificates = [], audit_logs = []\<rparr>"

text \<open>A request of a user with the two payload fields as given.\<close>

definition mk_request :: "nat \<Rightarrow> int field_input \<Rightarrow> bool field_input \<Rightarrow> request" where
  "mk_request u secs flag =
     \<lparr>req_user = u,
      req_data = \<lparr>progress_seconds_in = secs, completed_in = flag\<rparr>,
      http_x_forwarded_for = None, remote_addr = Some ''10.0.0.1'',
      http_user_agent = Some ''test''\<rparr>"

text \<open>
  User 7 reports 150 seconds on video 1, then 300 seconds with \<open>completed\<close> true, then
  20 seconds with \<open>completed\<close> false.
\<close>

definition three_calls :: "(env \<times> request \<times> nat) list" where
  "three_calls =
     [(env0, mk_request 7 (Valid 150) (Valid False), 1),
      (env0\<lparr>now := 12\<rparr>, mk_request 7 (Valid 300) (Valid True), 1),
      (env0\<lparr>now := 15\<rparr>, mk_request 7 (Valid 20) (Valid False), 1)]"

text \<open>User 7 holds a certificate of the training and has no progress row.\<close>

definition db_stale_certificate :: db where
  "db_stale_certificate = \<lparr>videos = [video_a, video_b], progress_tbl = [],
      certificates = [\<lparr>uc_id = 1, uc_user = 7, uc_training = 1,
                       certificate_code = ''0ld'', issued_at = 3\<rparr>],
      audit_logs = []\<rparr>"

text \<open>User 7 has completed the active video only.\<close>

definition db_a_done :: db where
  "db_a_done = \<lparr>videos = [video_a, video_b], progress_tbl = [done_row 1 7 1],
      certificates = [], audit_logs = []\<rparr>"

section \<open>Auxiliary facts\<close>

subsection \<open>Keys and pairs\<close>

lemma foldr_max_ge: "x \<in> set ids \<Longrightarrow> x \<le> foldr max ids (0::nat)"
  by (induction ids) (auto simp: max_def)

lemma fresh_id_notin: "fresh_id ids \<notin> set ids"
proof
  assume "fresh_id ids \<in> set ids"
  then have "fresh_id ids \<le> foldr max ids 0" by (rule foldr_max_ge)
  then show False by (simp add: fresh_id_def)
qed

lemma distinct_pairs_filter:
  "distinct (map f xs) \<Longrightarrow> length [x \<leftarrow> xs. f x = k] \<le> 1"
proof (induction xs)
  case Nil
  then show ?case by simp
next
  case (Cons a xs)
  show ?case
  proof (cases "f a = k")
    case True
    with Cons.prems have "k \<notin> f ` set xs" by auto
    then have "[x \<leftarrow> xs. f x = k] = []" by (auto simp: filter_empty_conv)
    with True show ?thesis by simp
  next
    case False
    with Cons show ?thesis by simp
  qed
qed

lemma progress_rows_pair:
  "progress_rows s u v = [p \<leftarrow> progress_tbl s. (up_user p, up_video p) = (u, v)]"
  by (simp add: progress_rows_def)

lemma progress_rows_le1:
  "progress_constraints s \<Longrightarrow> length (progress_rows s u v) \<le> 1"
  using distinct_pairs_filter[of "\<lambda>p. (up_user p, up_video p)" "progress_tbl s" "(u, v)"]
  by (simp add: progress_rows_pair progress_constraints_def)



subsection \<open>Get or create\<close>

lemma progress_get_or_create_cases:
  "progress_get_or_create e u vd s =
     (case progress_rows s u (v_id vd) of
        [] \<Rightarrow> Inr (\<lparr>up_id = fresh_id (map up_id (progress_tbl s)), up_user = u,
                    up_video = v_id vd, progress_seconds = 0, completed = False,
                    last_watched = now e, completed_at = None\<rparr>, True,
                   s\<lparr>progress_tbl := progress_tbl s @
                     [\<lparr>up_id = fresh_id (map up_id (progress_tbl s)), up_user = u,
                    up_video = v_id vd, progress_seconds = 0, completed = False,
                    last_watched = now e, completed_at = None\<rparr>]\<rparr>)
      | [p] \<Rightarrow> Inr (p, False, s)
      | _ \<Rightarrow> Inl MultipleObjectsReturned)"
  by (simp add: progress_get_or_create_def progress_rows_def Let_def split: list.splits)

lemma in_filter_singleton: "filter P xs = [p] \<Longrightarrow> p \<in> set xs \<and> P p"
proof -
  assume "filter P xs = [p]"
  then have "p \<in> set (filter P xs)" by simp
  then show ?thesis by simp
qed

lemma progress_get_or_create_Inr:
  assumes "progress_get_or_create e u vd s = Inr (p, c, s1)"
  shows "videos s1 = videos s" "certificates s1 = certificates s"
    "audit_logs s1 = audit_logs s"
    "p \<in> set (progress_tbl s1)" "up_user p = u" "up_video p = v_id vd"
    "progress_constraints s \<Longrightarrow> progress_constraints s1"
    "timestamps_consistent s \<Longrightarrow> timestamps_consistent s1"
    "\<exists>extra. progress_tbl s1 = progress_tbl s @ extra
        \<and> (\<forall>q\<in>set extra. up_user q = u \<and> up_video q = v_id vd)"
proof -
  let ?rows = "progress_rows s u (v_id vd)"
  consider (new) "?rows = []" | (old) q where "?rows = [q]"
    | (many) a b rest where "?rows = a # b # rest"
    by (cases ?rows rule: list.exhaust; simp; metis list.exhaust)
  then have "videos s1 = videos s \<and> certificates s1 = certificates s \<and>
    audit_logs s1 = audit_logs s \<and>
    p \<in> set (progress_tbl s1) \<and> up_user p = u \<and> up_video p = v_id vd \<and>
    (progress_constraints s \<longrightarrow> progress_constraints s1) \<and>
    (timestamps_consistent s \<longrightarrow> timestamps_consistent s1) \<and>
    (\<exists>extra. progress_tbl s1 = progress_tbl s @ extra
        \<and> (\<forall>q\<in>set extra. up_user q = u \<and> up_video q = v_id vd))"
  proof cases
    case new
    then have none: "(u, v_id vd) \<notin> (\<lambda>p. (up_user p, up_video p)) ` set (progress_tbl s)"
      by (auto simp: progress_rows_def filter_empty_conv)
    from new assms show ?thesis
      using fresh_id_notin[of "map up_id (progress_tbl s)"] none
      by (auto simp: progress_get_or_create_cases progress_constraints_def
          timestamps_consistent_def)
  next
    case old
    with assms have "p = q" "s1 = s" by (auto simp: progress_get_or_create_cases)
    moreover from old have "q \<in> set (progress_tbl s) \<and> up_user q = u \<and> up_video q = v_id vd"
      unfolding progress_rows_def by (blast dest: in_filter_singleton)
    ultimately show ?thesis by auto
  next
    case many
    with assms show ?thesis by (simp add: progress_get_or_create_cases)
  qed
  then show "videos s1 = videos s" "certificates s1 = certificates s"
    "audit_logs s1 = audit_logs s"
    "p \<in> set (progress_tbl s1)" "up_user p = u" "up_video p = v_id vd"
    "progress_constraints s \<Longrightarrow> progress_constraints s1"
    "timestamps_consistent s \<Longrightarrow> timestamps_consistent s1"
    "\<exists>extra. progress_tbl s1 = progress_tbl s @ extra
        \<and> (\<forall>q\<in>set extra. up_user q = u \<and> up_video q = v_id vd)"
    by blast+
qed

subsection \<open>The serializer\<close>

lemma row_evolves_refl: "row_evolves e q q"
  by (simp add: row_evolves_def)

lemma save_progress_simps:
  "fst (save_progress e inst s) = inst\<lparr>last_watched := now e\<rparr>"
  "progress_tbl (snd (save_progress e inst s)) =
     map (\<lambda>q. if up_id q = up_id inst then inst\<lparr>last_watched := now e\<rparr> else q) (progress_tbl s)"
  "videos (snd (save_progress e inst s)) = videos s"
  "certificates (snd (save_progress e inst s)) = certificates s"
  "audit_logs (snd (save_progress e inst s)) = audit_logs s"
  by (simp_all add: save_progress_def Let_def)

lemma serializer_update_row:
  "row_evolves e inst (fst (serializer_update e inst vd s))"
  "progress_seconds (fst (serializer_update e inst vd s)) =
     (case vd_progress_seconds vd of None \<Rightarrow> progress_seconds inst | Some n \<Rightarrow> n)"
  "completed (fst (serializer_update e inst vd s)) =
     (completed inst \<or> vd_completed vd = Some True)"
  by (auto simp: serializer_update_def save_progress_simps row_evolves_def Let_def
      split: option.splits)

lemma serializer_update_tables:
  "progress_tbl (snd (serializer_update e inst vd s)) =
     map (\<lambda>q. if up_id q = up_id inst then fst (serializer_update e inst vd s) else q)
       (progress_tbl s)"
  "videos (snd (serializer_update e inst vd s)) = videos s"
  "certificates (snd (serializer_update e inst vd s)) = certificates s"
  "audit_logs (snd (serializer_update e inst vd s)) = audit_logs s"
  by (simp_all add: serializer_update_def save_progress_simps Let_def)

subsection \<open>The completion check\<close>

lemma certificate_get_or_create_cases:
  "certificate_get_or_create e u tr s =
     (case certificate_rows s u (t_id tr) of
        [] \<Rightarrow> Inr (\<lparr>uc_id = fresh_id (map uc_id (certificates s)), uc_user = u,
                    uc_training = t_id tr, certificate_code = uuid4 e,
                    issued_at = now e\<rparr>, True,
                   s\<lparr>certificates := certificates s @
                     [\<lparr>uc_id = fresh_id (map uc_id (certificates s)), uc_user = u,
                    uc_training = t_id tr, certificate_code = uuid4 e,
                    issued_at = now e\<rparr>]\<rparr>)
      | [c] \<Rightarrow> Inr (c, False, s)
      | _ \<Rightarrow> Inl MultipleObjectsReturned)"
  by (simp add: certificate_get_or_create_def certificate_rows_def Let_def split: list.splits)

lemma check_keeps:
  "progress_tbl (snd (check_training_completion e u tr s)) = progress_tbl s"
  "videos (snd (check_training_completion e u tr s)) = videos s"
  by (auto simp: check_training_completion_def certificate_get_or_create_cases
      audit_create_def Let_def split: list.splits)

lemma check_certificates:
  "certificates (snd (check_training_completion e u tr s)) =
     (if 0 < total_videos s tr \<and> completed_videos s u tr = total_videos s tr
         \<and> certificate_rows s u (t_id tr) = []
      then certificates s @
             [\<lparr>uc_id = fresh_id (map uc_id (certificates s)), uc_user = u,
               uc_training = t_id tr, certificate_code = uuid4 e, issued_at = now e\<rparr>]
      else certificates s)"
  by (auto simp: check_training_completion_def certificate_get_or_create_cases
      audit_create_def Let_def split: list.splits)


lemma check_constraints:
  assumes "certificate_constraints s"
  shows "certificate_constraints (snd (check_training_completion e u tr s))"
proof (cases "0 < total_videos s tr \<and> completed_videos s u tr = total_videos s tr
         \<and> certificate_rows s u (t_id tr) = []")
  case True
  then have "(u, t_id tr) \<notin> (\<lambda>c. (uc_user c, uc_training c)) ` set (certificates s)"
    by (auto simp: certificate_rows_def filter_empty_conv)
  with True assms show ?thesis
    using fresh_id_notin[of "map uc_id (certificates s)"]
    by (auto simp: certificate_constraints_def check_certificates)
next
  case False
  with assms show ?thesis
    by (auto simp: certificate_constraints_def check_certificates)
qed

subsection \<open>The view\<close>

lemma get_object_or_404_Inr:
  "get_object_or_404 s vid = Inr vd \<Longrightarrow> v_id vd = vid \<and> v_is_active vd \<and> vd \<in> set (videos s)"
proof -
  assume a: "get_object_or_404 s vid = Inr vd"
  then have "[v \<leftarrow> videos s. v_id v = vid \<and> v_is_active v] = [vd]"
    by (simp add: get_object_or_404_def split: list.splits)
  then have "vd \<in> set (videos s) \<and> (v_id vd = vid \<and> v_is_active vd)"
    by (rule in_filter_singleton)
  then show ?thesis by simp
qed

lemma uvp_progress_tbl:
  "progress_tbl (snd (update_video_progress e r vid s)) =
    (case get_object_or_404 s vid of Inl _ \<Rightarrow> progress_tbl s
     | Inr vd \<Rightarrow>
        (case progress_get_or_create e (req_user r) vd s of Inl _ \<Rightarrow> progress_tbl s
         | Inr (p0, c, s1) \<Rightarrow>
            (case is_valid (req_data r) of Inl _ \<Rightarrow> progress_tbl s1
             | Inr vdata \<Rightarrow> progress_tbl (snd (serializer_update e p0 vdata s1)))))"
proof (cases "get_object_or_404 s vid")
  case (Inl a)
  then show ?thesis by (simp add: update_video_progress_def)
next
  case (Inr vd)
  show ?thesis
  proof (cases "progress_get_or_create e (req_user r) vd s")
    case (Inl x)
    with Inr show ?thesis by (simp add: update_video_progress_def)
  next
    case goc: (Inr res)
    obtain p0 c s1 where res: "res = (p0, c, s1)" by (cases res) auto
    show ?thesis
    proof (cases "is_valid (req_data r)")
      case (Inl errs)
      with Inr goc res show ?thesis by (simp add: update_video_progress_def)
    next
      case (Inr vdata)
      with \<open>get_object_or_404 s vid = Inr vd\<close> goc res show ?thesis
        by (simp add: update_video_progress_def Let_def case_prod_beta
            check_keeps audit_create_def split: option.split)
    qed
  qed
qed


lemma uvp_videos:
  "videos (snd (update_video_progress e r vid s)) = videos s"
proof (cases "get_object_or_404 s vid")
  case (Inl a)
  then show ?thesis by (simp add: update_video_progress_def)
next
  case (Inr vd)
  show ?thesis
  proof (cases "progress_get_or_create e (req_user r) vd s")
    case (Inl x)
    with Inr show ?thesis by (simp add: update_video_progress_def)
  next
    case goc: (Inr res)
    obtain p0 c s1 where res: "res = (p0, c, s1)" by (cases res) auto
    from goc res have v1: "videos s1 = videos s"
      by (simp add: progress_get_or_create_Inr(1))
    show ?thesis
    proof (cases "is_valid (req_data r)")
      case (Inl errs)
      with Inr goc res v1 show ?thesis by (simp add: update_video_progress_def)
    next
      case (Inr vdata)
      with \<open>get_object_or_404 s vid = Inr vd\<close> goc res v1 show ?thesis
        by (simp add: update_video_progress_def Let_def case_prod_beta check_keeps
            audit_create_def serializer_update_tables split: option.split)
    qed
  qed
qed

lemma distinct_map_eq:
  "distinct (map f xs) \<Longrightarrow> x \<in> set xs \<Longrightarrow> y \<in> set xs \<Longrightarrow> f x = f y \<Longrightarrow> x = y"
  by (meson distinct_map inj_onD)

lemma uvp_step:
  assumes pc: "progress_constraints s"
  shows "\<exists>f extra.
      progress_tbl (snd (update_video_progress e r vid s)) = map f (progress_tbl s) @ extra
      \<and> (\<forall>q\<in>set (progress_tbl s). row_evolves e q (f q))
      \<and> (extra = [] \<or> (\<exists>q. extra = [q] \<and> up_user q = req_user r \<and> up_video q = vid
             \<and> progress_rows s (req_user r) vid = []
             \<and> up_id q = fresh_id (map up_id (progress_tbl s))
             \<and> completed q = (completed_at q \<noteq> None)))"
    (is "\<exists>f extra. ?P f extra")
proof (cases "get_object_or_404 s vid")
  case (Inl a)
  then have "?P (\<lambda>q. q) []" by (simp add: uvp_progress_tbl row_evolves_refl)
  then show ?thesis by blast
next
  case (Inr vd)
  then have vid: "v_id vd = vid" by (simp add: get_object_or_404_Inr)
  show ?thesis
  proof (cases "progress_get_or_create e (req_user r) vd s")
    case (Inl x)
    with Inr have "?P (\<lambda>q. q) []" by (simp add: uvp_progress_tbl row_evolves_refl)
    then show ?thesis by blast
  next
    case goc: (Inr res)
    obtain p0 c s1 where res: "res = (p0, c, s1)" by (cases res) auto
    let ?fresh = "\<lparr>up_id = fresh_id (map up_id (progress_tbl s)), up_user = req_user r,
                    up_video = v_id vd, progress_seconds = 0, completed = False,
                    last_watched = now e, completed_at = None\<rparr>"
    from goc res have shape:
      "(progress_rows s (req_user r) vid = [] \<and> p0 = ?fresh \<and>
          progress_tbl s1 = progress_tbl s @ [p0])
       \<or> (p0 \<in> set (progress_tbl s) \<and> progress_tbl s1 = progress_tbl s)"
      by (auto simp: progress_get_or_create_cases vid progress_rows_def
          split: list.splits dest: in_filter_singleton)
    show ?thesis
    proof (cases "is_valid (req_data r)")
      case (Inl errs)
      with Inr goc res have tbl: "progress_tbl (snd (update_video_progress e r vid s)) = progress_tbl s1"
        by (simp add: uvp_progress_tbl)
      from shape show ?thesis
      proof
        assume "progress_rows s (req_user r) vid = [] \<and> p0 = ?fresh \<and>
          progress_tbl s1 = progress_tbl s @ [p0]"
        with tbl vid have "?P (\<lambda>q. q) [p0]" by (simp add: row_evolves_refl)
        then show ?thesis by blast
      next
        assume "p0 \<in> set (progress_tbl s) \<and> progress_tbl s1 = progress_tbl s"
        with tbl have "?P (\<lambda>q. q) []" by (simp add: row_evolves_refl)
        then show ?thesis by blast
      qed
    next
      case valid: (Inr vdata)
      define p where "p = fst (serializer_update e p0 vdata s1)"
      define F where "F = (\<lambda>q. if up_id q = up_id p0 then p else q)"
      have ev: "row_evolves e p0 p" unfolding p_def by (rule serializer_update_row)
      from Inr goc res valid
      have tbl: "progress_tbl (snd (update_video_progress e r vid s)) = map F (progress_tbl s1)"
        by (simp add: uvp_progress_tbl serializer_update_tables p_def F_def)
      from shape show ?thesis
      proof
        assume new: "progress_rows s (req_user r) vid = [] \<and> p0 = ?fresh \<and>
          progress_tbl s1 = progress_tbl s @ [p0]"
        then have "up_id p0 \<notin> set (map up_id (progress_tbl s))"
          using fresh_id_notin[of "map up_id (progress_tbl s)"] by simp
        then have same: "\<forall>q\<in>set (progress_tbl s). F q = q"
        proof (intro ballI)
          fix q assume "q \<in> set (progress_tbl s)"
          then have "up_id q \<in> set (map up_id (progress_tbl s))" by simp
          with \<open>up_id p0 \<notin> set (map up_id (progress_tbl s))\<close>
          have "up_id q \<noteq> up_id p0" by metis
          then show "F q = q" by (simp add: F_def)
        qed
        then have "map F (progress_tbl s) = map (\<lambda>q. q) (progress_tbl s)"
          by (intro map_cong) auto
        with new tbl have 1: "progress_tbl (snd (update_video_progress e r vid s))
            = map (\<lambda>q. q) (progress_tbl s) @ [p]"
          by (simp add: F_def)
        from ev new vid have 2: "up_user p = req_user r \<and> up_video p = vid
            \<and> up_id p = fresh_id (map up_id (progress_tbl s))
            \<and> completed p = (completed_at p \<noteq> None)"
          by (auto simp: row_evolves_def split: if_splits)
        from 1 2 new have "?P (\<lambda>q. q) [p]" by (simp add: row_evolves_refl)
        then show ?thesis by blast
      next
        assume old: "p0 \<in> set (progress_tbl s) \<and> progress_tbl s1 = progress_tbl s"
        have "\<forall>q\<in>set (progress_tbl s). row_evolves e q (F q)"
        proof
          fix q assume q: "q \<in> set (progress_tbl s)"
          show "row_evolves e q (F q)"
          proof (cases "up_id q = up_id p0")
            case True
            with pc q old have "q = p0"
              unfolding progress_constraints_def by (blast intro: distinct_map_eq)
            with ev show ?thesis by (simp add: F_def)
          next
            case False
            then show ?thesis by (simp add: F_def row_evolves_refl)
          qed
        qed
        with old tbl have "?P F []" by simp
        then show ?thesis by blast
      qed
    qed
  qed
qed

lemma row_evolves_persists: "row_evolves e q q' \<Longrightarrow> row_persists q q'"
  by (simp add: row_evolves_def row_persists_def split: if_splits)

lemma row_persists_refl: "row_persists q q"
  by (simp add: row_persists_def)

lemma row_persists_trans: "row_persists a b \<Longrightarrow> row_persists b c \<Longrightarrow> row_persists a c"
  by (simp add: row_persists_def split: if_splits)

lemma rows_after:
  assumes tbl: "tbl' = map g tbl @ extra"
    and keys: "\<forall>q\<in>set tbl. up_user (g q) = up_user q \<and> up_video (g q) = up_video q"
    and uniq: "distinct (map (\<lambda>q. (up_user q, up_video q)) tbl')"
    and p: "p \<in> set tbl"
  shows "[q \<leftarrow> tbl'. up_user q = up_user p \<and> up_video q = up_video p] = [g p]"
proof -
  let ?rows = "[q \<leftarrow> tbl'. up_user q = up_user p \<and> up_video q = up_video p]"
  have "?rows = [q \<leftarrow> tbl'. (up_user q, up_video q) = (up_user p, up_video p)]"
    by simp
  then have le: "length ?rows \<le> 1"
    using distinct_pairs_filter[OF uniq, of "(up_user p, up_video p)"] by simp
  from p tbl have "g p \<in> set tbl'" by simp
  with keys p have mem: "g p \<in> set ?rows" by simp
  then obtain y ys where ys: "?rows = y # ys" by (cases ?rows) auto
  with le have "ys = []" by simp
  with ys mem show ?thesis by simp
qed

lemma step_constraints:
  assumes pc: "progress_constraints s"
  shows "progress_constraints (snd (update_video_progress e r vid s))"
proof -
  from uvp_step[OF pc, of e r vid] obtain f extra where
    tbl: "progress_tbl (snd (update_video_progress e r vid s)) = map f (progress_tbl s) @ extra"
    and ev: "\<forall>q\<in>set (progress_tbl s). row_evolves e q (f q)"
    and ex: "extra = [] \<or> (\<exists>q. extra = [q] \<and> up_user q = req_user r \<and> up_video q = vid
             \<and> progress_rows s (req_user r) vid = []
             \<and> up_id q = fresh_id (map up_id (progress_tbl s))
             \<and> completed q = (completed_at q \<noteq> None))"
    by blast
  from ev have ids: "map up_id (map f (progress_tbl s)) = map up_id (progress_tbl s)"
    by (simp add: row_evolves_def)
  from ev have pairs: "map (\<lambda>p. (up_user p, up_video p)) (map f (progress_tbl s))
      = map (\<lambda>p. (up_user p, up_video p)) (progress_tbl s)"
    by (simp add: row_evolves_def)
  from ex show ?thesis
  proof
    assume "extra = []"
    with tbl ids pairs pc show ?thesis
      by (simp add: progress_constraints_def del: map_map)
  next
    assume "\<exists>q. extra = [q] \<and> up_user q = req_user r \<and> up_video q = vid
             \<and> progress_rows s (req_user r) vid = []
             \<and> up_id q = fresh_id (map up_id (progress_tbl s))
             \<and> completed q = (completed_at q \<noteq> None)"
    then obtain q where q: "extra = [q]" "up_user q = req_user r" "up_video q = vid"
      "progress_rows s (req_user r) vid = []"
      "up_id q = fresh_id (map up_id (progress_tbl s))" by blast
    from q(5) have nid: "up_id q \<notin> set (map up_id (progress_tbl s))"
      using fresh_id_notin[of "map up_id (progress_tbl s)"] by simp
    from q(2,3,4) have npair:
      "(up_user q, up_video q) \<notin> set (map (\<lambda>p. (up_user p, up_video p)) (progress_tbl s))"
      by (auto simp: progress_rows_def filter_empty_conv)
    have "map up_id (progress_tbl (snd (update_video_progress e r vid s)))
        = map up_id (progress_tbl s) @ [up_id q]"
      using tbl ids q(1) by (simp del: map_map)
    moreover have "map (\<lambda>p. (up_user p, up_video p))
          (progress_tbl (snd (update_video_progress e r vid s)))
        = map (\<lambda>p. (up_user p, up_video p)) (progress_tbl s) @ [(up_user q, up_video q)]"
      using tbl pairs q(1) by (simp del: map_map)
    ultimately show ?thesis
      using pc nid npair unfolding progress_constraints_def by simp
  qed
qed

lemma step_consistent:
  assumes pc: "progress_constraints s" and tc: "timestamps_consistent s"
  shows "timestamps_consistent (snd (update_video_progress e r vid s))"
proof -
  from uvp_step[OF pc, of e r vid] obtain f extra where
    tbl: "progress_tbl (snd (update_video_progress e r vid s)) = map f (progress_tbl s) @ extra"
    and ev: "\<forall>q\<in>set (progress_tbl s). row_evolves e q (f q)"
    and ex: "extra = [] \<or> (\<exists>q. extra = [q] \<and> up_user q = req_user r \<and> up_video q = vid
             \<and> progress_rows s (req_user r) vid = []
             \<and> up_id q = fresh_id (map up_id (progress_tbl s))
             \<and> completed q = (completed_at q \<noteq> None))"
    by blast
  have "\<forall>q\<in>set (progress_tbl s). completed (f q) = (completed_at (f q) \<noteq> None)"
  proof
    fix q assume q: "q \<in> set (progress_tbl s)"
    with tc have "completed q = (completed_at q \<noteq> None)"
      by (simp add: timestamps_consistent_def list_all_iff)
    moreover from ev q have "row_evolves e q (f q)" by blast
    ultimately show "completed (f q) = (completed_at (f q) \<noteq> None)"
      by (auto simp: row_evolves_def split: if_splits)
  qed
  moreover from ex have "\<forall>q\<in>set extra. completed q = (completed_at q \<noteq> None)"
    by auto
  ultimately show ?thesis
    using tbl by (auto simp: timestamps_consistent_def list_all_iff)
qed

lemma step_row:
  assumes pc: "progress_constraints s" and p: "p \<in> set (progress_tbl s)"
  shows "\<exists>p'. progress_rows (snd (update_video_progress e r vid s)) (up_user p) (up_video p) = [p']
       \<and> row_evolves e p p'"
proof -
  from uvp_step[OF pc, of e r vid] obtain f extra where
    tbl: "progress_tbl (snd (update_video_progress e r vid s)) = map f (progress_tbl s) @ extra"
    and ev: "\<forall>q\<in>set (progress_tbl s). row_evolves e q (f q)"
    by blast
  from ev have keys: "\<forall>q\<in>set (progress_tbl s). up_user (f q) = up_user q \<and> up_video (f q) = up_video q"
    by (simp add: row_evolves_def)
  from step_constraints[OF pc, of e r vid]
  have uniq: "distinct (map (\<lambda>q. (up_user q, up_video q))
      (progress_tbl (snd (update_video_progress e r vid s))))"
    by (simp add: progress_constraints_def)
  from rows_after[OF tbl keys uniq p] ev p show ?thesis
    by (auto simp: progress_rows_def)
qed

lemma run_constraints:
  "progress_constraints s \<Longrightarrow> progress_constraints (run cs s)"
proof (induction cs arbitrary: s)
  case Nil
  then show ?case by simp
next
  case (Cons c cs)
  obtain e r vid where c: "c = (e, r, vid)" by (cases c) auto
  from Cons.prems have "progress_constraints (snd (update_video_progress e r vid s))"
    by (rule step_constraints)
  then show ?case unfolding c by (simp add: Cons.IH)
qed

lemma run_consistent:
  "progress_constraints s \<Longrightarrow> timestamps_consistent s \<Longrightarrow> timestamps_consistent (run cs s)"
proof (induction cs arbitrary: s)
  case Nil
  then show ?case by simp
next
  case (Cons c cs)
  obtain e r vid where c: "c = (e, r, vid)" by (cases c) auto
  from Cons.prems have "progress_constraints (snd (update_video_progress e r vid s))"
    "timestamps_consistent (snd (update_video_progress e r vid s))"
    by (simp_all add: step_constraints step_consistent)
  then show ?case unfolding c by (simp add: Cons.IH)
qed

lemma in_progress_rows:
  "progress_rows s u v = [p] \<Longrightarrow> p \<in> set (progress_tbl s) \<and> up_user p = u \<and> up_video p = v"
  unfolding progress_rows_def by (drule in_filter_singleton) simp

lemma run_row:
  "progress_constraints s \<Longrightarrow> p \<in> set (progress_tbl s) \<Longrightarrow>
   \<exists>p'. progress_rows (run cs s) (up_user p) (up_video p) = [p'] \<and> row_persists p p'"
proof (induction cs arbitrary: s p)
  case Nil
  from Nil(1) have "length (progress_rows s (up_user p) (up_video p)) \<le> 1"
    by (rule progress_rows_le1)
  moreover from Nil have "p \<in> set (progress_rows s (up_user p) (up_video p))"
    by (simp add: progress_rows_def)
  ultimately have "progress_rows s (up_user p) (up_video p) = [p]"
    by (cases "progress_rows s (up_user p) (up_video p)") auto
  then show ?case by (simp add: row_persists_refl)
next
  case (Cons c cs)
  obtain e r vid where c: "c = (e, r, vid)" by (cases c) auto
  let ?s1 = "snd (update_video_progress e r vid s)"
  from step_row[OF Cons.prems, of e r vid] obtain p1 where
    p1: "progress_rows ?s1 (up_user p) (up_video p) = [p1]" "row_evolves e p p1" by blast
  from p1(1) have mem: "p1 \<in> set (progress_tbl ?s1)" by (simp add: in_progress_rows)
  from p1(2) have keys: "up_user p1 = up_user p" "up_video p1 = up_video p"
    by (simp_all add: row_evolves_def)
  have pc1: "progress_constraints ?s1" using Cons.prems(1) by (rule step_constraints)
  from Cons.IH[OF pc1 mem] obtain p' where
    "progress_rows (run cs ?s1) (up_user p1) (up_video p1) = [p']" "row_persists p1 p'"
    by blast
  with keys p1(2) show ?case unfolding c
    by (auto intro: row_persists_trans row_evolves_persists)
qed

lemma get_object_or_404_eq:
  "(get_object_or_404 s vid = Inr vd) = ([v \<leftarrow> videos s. v_id v = vid \<and> v_is_active v] = [vd])"
  by (simp add: get_object_or_404_def split: list.splits)

lemma get_object_or_404_missing:
  "\<not> (\<exists>v\<in>set (videos s). v_id v = vid \<and> v_is_active v) \<Longrightarrow>
   get_object_or_404 s vid = Inl HTTP_404_NOT_FOUND"
proof -
  assume "\<not> (\<exists>v\<in>set (videos s). v_id v = vid \<and> v_is_active v)"
  then have "[v \<leftarrow> videos s. v_id v = vid \<and> v_is_active v] = []"
    by (auto simp: filter_empty_conv)
  then show ?thesis by (simp add: get_object_or_404_def)
qed


lemma is_valid_Inl_nonempty: "is_valid d = Inl errs \<Longrightarrow> errs \<noteq> []"
  by (auto simp: is_valid_def Let_def split: if_splits)


lemma uvp_invalid:
  assumes vd: "get_object_or_404 s vid = Inr vd"
    and bad: "is_valid (req_data r) = Inl errs"
    and pc: "progress_constraints s"
  shows "update_video_progress e r vid s =
     (HTTP_400_BAD_REQUEST errs,
      if progress_rows s (req_user r) vid = [] then
        s\<lparr>progress_tbl := progress_tbl s @
            [\<lparr>up_id = fresh_id (map up_id (progress_tbl s)), up_user = req_user r,
              up_video = vid, progress_seconds = 0, completed = False,
              last_watched = now e, completed_at = None\<rparr>]\<rparr>
      else s)"
proof -
  from vd have vid: "v_id vd = vid" by (simp add: get_object_or_404_Inr)
  from pc have le: "length (progress_rows s (req_user r) vid) \<le> 1"
    by (rule progress_rows_le1)
  show ?thesis
  proof (cases "progress_rows s (req_user r) vid")
    case Nil
    with vd bad vid show ?thesis
      by (simp add: update_video_progress_def progress_get_or_create_cases)
  next
    case (Cons a rest)
    with le have "rest = []" by simp
    with Cons vd bad vid show ?thesis
      by (simp add: update_video_progress_def progress_get_or_create_cases)
  qed
qed


subsection \<open>Counting completed videos\<close>

lemma join_ids_subset:
  "set (map v_id (concat (map (\<lambda>p. [v \<leftarrow> vs. v_id v = up_video p \<and> Q v]) ps)))
     \<subseteq> up_video ` set ps"
  by auto

lemma join_set:
  "set (concat (map (\<lambda>p. [v \<leftarrow> vs. v_id v = up_video p \<and> Q v]) [p \<leftarrow> ps. P p]))
     = {v \<in> set vs. Q v \<and> (\<exists>p\<in>set ps. P p \<and> up_video p = v_id v)}"
  by auto


lemma join_distinct:
  assumes "distinct (map v_id vs)"
  shows "distinct (map up_video ps) \<Longrightarrow>
    distinct (map v_id (concat (map (\<lambda>p. [v \<leftarrow> vs. v_id v = up_video p \<and> Q v]) ps)))"
proof (induction ps)
  case Nil
  then show ?case by simp
next
  case (Cons p ps)
  have 1: "distinct (map v_id [v \<leftarrow> vs. v_id v = up_video p \<and> Q v])"
    using assms by (rule distinct_map_filter)
  have 2: "distinct (map v_id (concat (map (\<lambda>p. [v \<leftarrow> vs. v_id v = up_video p \<and> Q v]) ps)))"
    using Cons by simp
  have 3: "set (map v_id [v \<leftarrow> vs. v_id v = up_video p \<and> Q v]) \<subseteq> {up_video p}"
    by auto
  have 4: "up_video p \<notin> up_video ` set ps" using Cons.prems by simp
  have "set (map v_id [v \<leftarrow> vs. v_id v = up_video p \<and> Q v])
      \<inter> set (map v_id (concat (map (\<lambda>p. [v \<leftarrow> vs. v_id v = up_video p \<and> Q v]) ps))) = {}"
    using 3 4 join_ids_subset[where vs=vs and Q=Q and ps=ps] by blast
  with 1 2 show ?case by simp
qed

lemma user_rows_distinct_videos:
  "distinct (map (\<lambda>p. (up_user p, up_video p)) xs) \<Longrightarrow>
   distinct (map up_video [p \<leftarrow> xs. up_user p = u \<and> R p])"
proof (induction xs)
  case Nil
  then show ?case by simp
next
  case (Cons a xs)
  then have IH: "distinct (map up_video [p \<leftarrow> xs. up_user p = u \<and> R p])" by simp
  show ?case
  proof (cases "up_user a = u \<and> R a")
    case True
    from Cons.prems have notin: "(up_user a, up_video a) \<notin> (\<lambda>p. (up_user p, up_video p)) ` set xs"
      by simp
    have "up_video a \<notin> up_video ` {p \<in> set xs. up_user p = u \<and> R p}"
    proof
      assume "up_video a \<in> up_video ` {p \<in> set xs. up_user p = u \<and> R p}"
      then obtain p where p: "p \<in> set xs" "up_user p = u" "up_video p = up_video a"
        by auto
      with True have "(up_user a, up_video a) = (up_user p, up_video p)" by simp
      also from p(1) have "\<dots> \<in> (\<lambda>p. (up_user p, up_video p)) ` set xs"
        by (rule imageI)
      finally show False using notin by contradiction
    qed
    with True IH show ?thesis by simp
  next
    case False
    with IH show ?thesis by auto
  qed
qed


lemma completed_videos_eq_total:
  assumes vc: "video_constraints s" and pc: "progress_constraints s"
    and act: "\<forall>p\<in>set (progress_tbl s). \<forall>v\<in>set (videos s).
        up_user p = u \<and> completed p \<and> v_id v = up_video p
          \<and> t_id (v_training v) = t_id tr \<longrightarrow> v_is_active v"
  shows "(completed_videos s u tr = total_videos s tr) =
    (\<forall>v\<in>set (videos s). t_id (v_training v) = t_id tr \<and> v_is_active v \<longrightarrow>
       (\<exists>p\<in>set (progress_tbl s). up_user p = u \<and> up_video p = v_id v \<and> completed p))"
proof -
  define C where "C = [p \<leftarrow> progress_tbl s. up_user p = u \<and> completed p]"
  define J where "J = concat (map (\<lambda>p. [v \<leftarrow> videos s. v_id v = up_video p
                \<and> t_id (v_training v) = t_id tr]) C)"
  define A where "A = [v \<leftarrow> videos s. t_id (v_training v) = t_id tr \<and> v_is_active v]"
  from vc have dv: "distinct (map v_id (videos s))" by (simp add: video_constraints_def)
  from pc have "distinct (map (\<lambda>p. (up_user p, up_video p)) (progress_tbl s))"
    by (simp add: progress_constraints_def)
  then have "distinct (map up_video C)"
    unfolding C_def by (rule user_rows_distinct_videos)
  with dv have "distinct (map v_id J)" unfolding J_def by (rule join_distinct)
  then have dJ: "distinct J" by (simp only: distinct_map)
  from dv have "distinct (videos s)" by (simp only: distinct_map)
  then have dA: "distinct A" by (simp add: A_def)
  have setJ: "set J = {v \<in> set (videos s). t_id (v_training v) = t_id tr
      \<and> (\<exists>p\<in>set (progress_tbl s). (up_user p = u \<and> completed p) \<and> up_video p = v_id v)}"
    unfolding J_def C_def by (rule join_set)
  have setA: "set A = {v \<in> set (videos s). t_id (v_training v) = t_id tr \<and> v_is_active v}"
    by (simp add: A_def)
  have sub: "set J \<subseteq> set A"
  proof
    fix v assume "v \<in> set J"
    then obtain p where v: "v \<in> set (videos s)" "t_id (v_training v) = t_id tr"
      and p: "p \<in> set (progress_tbl s)" "up_user p = u" "completed p" "up_video p = v_id v"
      unfolding setJ by blast
    from act p(1) v(1) have "up_user p = u \<and> completed p \<and> v_id v = up_video p
          \<and> t_id (v_training v) = t_id tr \<longrightarrow> v_is_active v" by blast
    with p v have "v_is_active v" by simp
    with v show "v \<in> set A" by (simp add: setA)
  qed
  have fin: "finite (set A)" by simp
  have "(length J = length A) = (card (set J) = card (set A))"
    using dJ dA by (simp only: distinct_card)
  also have "\<dots> = (set J = set A)"
    using card_subset_eq[OF fin sub] by auto
  also have "\<dots> = (set A \<subseteq> set J)" using sub by blast
  also have "\<dots> = (\<forall>v\<in>set (videos s). t_id (v_training v) = t_id tr \<and> v_is_active v \<longrightarrow>
       (\<exists>p\<in>set (progress_tbl s). up_user p = u \<and> up_video p = v_id v \<and> completed p))"
    unfolding setJ setA by blast
  finally have "(length J = length A) =
     (\<forall>v\<in>set (videos s). t_id (v_training v) = t_id tr \<and> v_is_active v \<longrightarrow>
       (\<exists>p\<in>set (progress_tbl s). up_user p = u \<and> up_video p = v_id v \<and> completed p))" .
  moreover have "completed_videos s u tr = length J"
    by (simp add: completed_videos_def J_def C_def)
  moreover have "total_videos s tr = length A"
    by (simp add: total_videos_def A_def)
  ultimately show ?thesis by simp
qed

subsection \<open>Certificate rows under the check\<close>

lemma check_certificate_rows:
  "certificate_rows (snd (check_training_completion e u tr s)) u (t_id tr) =
     (if 0 < total_videos s tr \<and> completed_videos s u tr = total_videos s tr
         \<and> certificate_rows s u (t_id tr) = []
      then [\<lparr>uc_id = fresh_id (map uc_id (certificates s)), uc_user = u,
               uc_training = t_id tr, certificate_code = uuid4 e, issued_at = now e\<rparr>]
      else certificate_rows s u (t_id tr))"
  by (simp add: certificate_rows_def check_certificates)

lemma check_repeatedly_le1:
  "length (certificate_rows s u (t_id tr)) \<le> 1 \<Longrightarrow>
   length (certificate_rows (check_repeatedly es u tr s) u (t_id tr)) \<le> 1"
proof (induction es arbitrary: s)
  case Nil
  then show ?case by simp
next
  case (Cons e es)
  from Cons.prems
  have "length (certificate_rows (snd (check_training_completion e u tr s)) u (t_id tr)) \<le> 1"
    by (simp add: check_certificate_rows)
  from Cons.IH[OF this] show ?case by simp
qed


section \<open>Video progress percentage\<close>

text \<open>
  C6, as amended. The percentage of a progress row is at most 100 for every value of
  the watched seconds; it is 0 when the video's duration is 0 and
  min(watched / duration * 100, 100) otherwise; and it is at least 0, hence in [0, 100],
  when neither the watched seconds nor the duration is negative.
\<close>

theorem progress_percentage_clamped:
  "progress_percentage vd p \<le> 100
   \<and> (duration_seconds vd = 0 \<longrightarrow> progress_percentage vd p = 0)
   \<and> (duration_seconds vd \<noteq> 0 \<longrightarrow>
        progress_percentage vd p =
          min (of_int (progress_seconds p) / of_int (duration_seconds vd) * 100) 100)
   \<and> (0 \<le> progress_seconds p \<and> 0 \<le> duration_seconds vd \<longrightarrow>
        0 \<le> progress_percentage vd p)"
  by (simp add: progress_percentage_def)

text \<open>A row of 300 watched seconds on the 300 second video, and on a video of duration 0.\<close>

theorem progress_percentage_clamped_witness:
  "progress_percentage video_a (done_row 1 7 1) \<le> 100
   \<and> progress_percentage video_a (done_row 1 7 1) = min (300 / 300 * 100) 100
   \<and> 0 \<le> progress_percentage video_a (done_row 1 7 1)
   \<and> progress_percentage (video_a\<lparr>duration_seconds := 0\<rparr>) (done_row 1 7 1) = 0"
  using progress_percentage_clamped [of video_a "done_row 1 7 1"]
    progress_percentage_clamped [of "video_a\<lparr>duration_seconds := 0\<rparr>" "done_row 1 7 1"]
  by (simp add: video_a_def done_row_def)

text \<open>
  C6, as stated, fails: a row with -5 watched seconds on the 300 second video has a
  negative percentage.
\<close>

theorem progress_percentage_negative:
  "progress_percentage video_a ((done_row 1 7 1)\<lparr>progress_seconds := - 5\<rparr>) < 0"
  by (simp add: progress_percentage_def video_a_def done_row_def)

section \<open>Trainings without active videos\<close>

text \<open>
  C7. When the training has no active video, the completion check raises nothing and
  leaves the store as it was, whatever the user's progress rows are: no certificate is
  created.
\<close>

theorem no_active_videos_no_certificate:
  "total_videos s tr = 0 \<Longrightarrow> check_training_completion e user tr s = (None, s)"
  by (simp add: check_training_completion_def)

text \<open>A training whose only video is inactive and completed by the user.\<close>

theorem no_active_videos_no_certificate_witness:
  "total_videos db_no_active demo_training = 0
   \<and> check_training_completion env0 7 demo_training db_no_active = (None, db_no_active)"
proof -
  have h: "total_videos db_no_active demo_training = 0"
    by (simp add: total_videos_def db_no_active_def video_b_def demo_training_def)
  show ?thesis
    using h no_active_videos_no_certificate [OF h, of env0 7] by simp
qed

section \<open>The progress endpoint: rejected requests\<close>

text \<open>
  C9. A request whose video id names no active video (no such row, or the row is
  inactive) is answered with the 404 response and leaves the whole store, every table
  of it, as it was.
\<close>

theorem missing_video_is_404:
  "\<not> (\<exists>v\<in>set (videos s). v_id v = vid \<and> v_is_active v) \<Longrightarrow>
   update_video_progress e r vid s = (HTTP_404_NOT_FOUND, s)"
  by (simp add: update_video_progress_def get_object_or_404_missing)

text \<open>The inactive video 2 and the unknown video 99.\<close>

theorem missing_video_is_404_witness:
  "\<not> (\<exists>v\<in>set (videos db_both_done). v_id v = 2 \<and> v_is_active v)
   \<and> update_video_progress env0 (mk_request 7 (Valid 10) (Valid True)) 2 db_both_done
       = (HTTP_404_NOT_FOUND, db_both_done)
   \<and> \<not> (\<exists>v\<in>set (videos db_both_done). v_id v = 99 \<and> v_is_active v)
   \<and> update_video_progress env0 (mk_request 7 (Valid 10) (Valid True)) 99 db_both_done
       = (HTTP_404_NOT_FOUND, db_both_done)"
proof -
  have h2: "\<not> (\<exists>v\<in>set (videos db_both_done). v_id v = 2 \<and> v_is_active v)"
    by (simp add: db_both_done_def video_a_def video_b_def)
  have h99: "\<not> (\<exists>v\<in>set (videos db_both_done). v_id v = 99 \<and> v_is_active v)"
    by (simp add: db_both_done_def video_a_def video_b_def)
  show ?thesis
    using h2 h99 missing_video_is_404 [OF h2] missing_video_is_404 [OF h99] by blast
qed

text \<open>
  C2, as amended. A request for an existing active video whose payload does not validate
  is answered with the 400 response carrying the field errors, which are not empty. If
  the pair (user, video) already has its progress row, the store is left exactly as it
  was; if it has none, the only change is the row that the view's get-or-create step
  adds before validating, with the model's defaults (0 seconds, not completed, no
  completion time). No certificate and no audit entry is written.
\<close>

theorem invalid_payload_is_400:
  assumes "[v \<leftarrow> videos s. v_id v = vid \<and> v_is_active v] = [vd]"
    and "is_valid (req_data r) = Inl errs"
    and "progress_constraints s"
  shows "errs \<noteq> []
    \<and> update_video_progress e r vid s =
       (HTTP_400_BAD_REQUEST errs,
        if progress_rows s (req_user r) vid = [] then
          s\<lparr>progress_tbl := progress_tbl s @
              [\<lparr>up_id = fresh_id (map up_id (progress_tbl s)), up_user = req_user r,
                up_video = vid, progress_seconds = 0, completed = False,
                last_watched = now e, completed_at = None\<rparr>]\<rparr>
        else s)"
proof -
  from assms(1) have "get_object_or_404 s vid = Inr vd" by (simp add: get_object_or_404_eq)
  then show ?thesis
    using assms(2,3) by (simp add: uvp_invalid is_valid_Inl_nonempty)
qed

text \<open>A payload with an ill-typed \<open>completed\<close> on a pair that already has its row.\<close>

theorem invalid_payload_is_400_witness:
  "[v \<leftarrow> videos db_both_done. v_id v = 1 \<and> v_is_active v] = [video_a]
   \<and> is_valid (req_data (mk_request 7 Omitted (Invalid [''Must be a valid boolean.''])))
       = Inl [(''completed'', [''Must be a valid boolean.''])]
   \<and> progress_constraints db_both_done
   \<and> update_video_progress env0 (mk_request 7 Omitted (Invalid [''Must be a valid boolean.'']))
        1 db_both_done
       = (HTTP_400_BAD_REQUEST [(''completed'', [''Must be a valid boolean.''])], db_both_done)"
proof -
  have h1: "[v \<leftarrow> videos db_both_done. v_id v = 1 \<and> v_is_active v] = [video_a]"
    by (simp add: db_both_done_def video_a_def video_b_def)
  have h2: "is_valid (req_data (mk_request 7 Omitted (Invalid [''Must be a valid boolean.''])))
       = Inl [(''completed'', [''Must be a valid boolean.''])]"
    by (simp add: is_valid_def mk_request_def)
  have h3: "progress_constraints db_both_done"
    by (simp add: progress_constraints_def db_both_done_def done_row_def)
  have h4: "progress_rows db_both_done (req_user (mk_request 7 Omitted
      (Invalid [''Must be a valid boolean.'']))) 1 \<noteq> []"
    by (simp add: progress_rows_def db_both_done_def done_row_def mk_request_def)
  show ?thesis
    using h1 h2 h3 h4 invalid_payload_is_400 [OF h1 h2 h3, of env0] by simp
qed

text \<open>
  C2, as stated, fails: the first request of user 7 for video 1, with an ill-typed
  \<open>progress_seconds\<close>, is answered with 400 and the progress table, empty before, holds
  a row afterwards.
\<close>

theorem invalid_payload_creates_row:
  "fst (update_video_progress env0
          (mk_request 7 (Invalid [''A valid integer is required.'']) Omitted) 1 db_fresh)
      = HTTP_400_BAD_REQUEST [(''progress_seconds'', [''A valid integer is required.''])]
   \<and> progress_tbl db_fresh = []
   \<and> progress_tbl (snd (update_video_progress env0
          (mk_request 7 (Invalid [''A valid integer is required.'']) Omitted) 1 db_fresh))
      = [\<lparr>up_id = 1, up_user = 7, up_video = 1, progress_seconds = 0, completed = False,
          last_watched = 9, completed_at = None\<rparr>]"
  by (simp add: update_video_progress_def get_object_or_404_def progress_get_or_create_def
      is_valid_def fresh_id_def Let_def db_fresh_def video_a_def video_b_def
      demo_training_def demo_module_def env0_def mk_request_def)

section \<open>The progress endpoint: accepted values\<close>




section \<open>Sequences of progress reports\<close>

text \<open>
  C4. Once the row of a pair is completed, it stays the row of that pair and stays
  completed after any sequence of requests to the endpoint, whatever users, videos and
  payloads (the \<open>completed\<close> flag included) the requests carry.
\<close>

theorem completed_is_one_way:
  assumes "progress_constraints s" and "p \<in> set (progress_tbl s)" and "completed p"
  shows "\<exists>p'. progress_rows (run cs s) (up_user p) (up_video p) = [p']
           \<and> up_id p' = up_id p \<and> completed p'"
proof -
  from run_row[OF assms(1,2), of cs] obtain p' where
    "progress_rows (run cs s) (up_user p) (up_video p) = [p']" "row_persists p p'" by blast
  with assms(3) show ?thesis by (auto simp: row_persists_def)
qed

text \<open>
  Three requests of user 7 on video 1, the first and the last with \<open>completed\<close> false,
  on a store where the row is completed.
\<close>

theorem completed_is_one_way_witness:
  "progress_constraints db_both_done \<and> done_row 1 7 1 \<in> set (progress_tbl db_both_done)
   \<and> completed (done_row 1 7 1)
   \<and> (\<exists>p'. progress_rows (run three_calls db_both_done) 7 1 = [p']
           \<and> up_id p' = 1 \<and> completed p')"
proof -
  have h1: "progress_constraints db_both_done"
    by (simp add: progress_constraints_def db_both_done_def done_row_def)
  have h2: "done_row 1 7 1 \<in> set (progress_tbl db_both_done)"
    by (simp add: db_both_done_def)
  have h3: "completed (done_row 1 7 1)" by (simp add: done_row_def)
  show ?thesis
    using h1 h2 h3 completed_is_one_way [OF h1 h2 h3, of three_calls]
    by (simp add: done_row_def)
qed

text \<open>
  C5. From a store that satisfies the storage constraints of the progress table, any
  sequence of requests leaves a store that satisfies them: every pair (user, video) has
  at most one row, and a pair that had its row keeps that row (the same primary key),
  so repeated calls update it instead of adding a second one.
\<close>

theorem one_progress_row_per_pair:
  assumes "progress_constraints s"
  shows "progress_constraints (run cs s)
    \<and> length (progress_rows (run cs s) u v) \<le> 1
    \<and> (progress_rows s u v \<noteq> [] \<longrightarrow>
         map up_id (progress_rows (run cs s) u v) = map up_id (progress_rows s u v))"
proof -
  have pc: "progress_constraints (run cs s)" using assms by (rule run_constraints)
  then have le: "length (progress_rows (run cs s) u v) \<le> 1" by (rule progress_rows_le1)
  have "map up_id (progress_rows (run cs s) u v) = map up_id (progress_rows s u v)"
    if ne: "progress_rows s u v \<noteq> []"
  proof -
    from assms have "length (progress_rows s u v) \<le> 1" by (rule progress_rows_le1)
    with ne obtain p where p: "progress_rows s u v = [p]"
      by (cases "progress_rows s u v") auto
    then have mem: "p \<in> set (progress_tbl s)" and k: "up_user p = u" "up_video p = v"
      by (simp_all add: in_progress_rows)
    from run_row[OF assms mem, of cs] obtain p' where
      "progress_rows (run cs s) (up_user p) (up_video p) = [p']" "row_persists p p'" by blast
    with p k show ?thesis by (simp add: row_persists_def)
  qed
  with pc le show ?thesis by blast
qed

text \<open>From the empty progress table, and from a table that has the row of the pair.\<close>

theorem one_progress_row_per_pair_witness:
  "progress_constraints db_fresh
   \<and> progress_constraints (run three_calls db_fresh)
   \<and> length (progress_rows (run three_calls db_fresh) 7 1) \<le> 1
   \<and> progress_rows db_both_done 7 1 \<noteq> []
   \<and> map up_id (progress_rows (run three_calls db_both_done) 7 1)
       = map up_id (progress_rows db_both_done 7 1)"
proof -
  have h1: "progress_constraints db_fresh"
    by (simp add: progress_constraints_def db_fresh_def)
  have h2: "progress_constraints db_both_done"
    by (simp add: progress_constraints_def db_both_done_def done_row_def)
  have h3: "progress_rows db_both_done 7 1 \<noteq> []"
    by (simp add: progress_rows_def db_both_done_def done_row_def)
  show ?thesis
    using h1 h3 one_progress_row_per_pair [OF h1, of three_calls 7 1]
      one_progress_row_per_pair [OF h2, of three_calls 7 1]
    by blast
qed

text \<open>
  C8. If in every row \<open>completed_at\<close> is set exactly when \<open>completed\<close> is true, the same
  holds after any sequence of requests. In one request each row evolves as
  \<open>row_evolves\<close> says: a completed row keeps its flag and its \<open>completed_at\<close>; a row that
  was not completed gets \<open>completed_at\<close> equal to the time of the call when the call
  completes it, and keeps its \<open>completed_at\<close> otherwise. Over any sequence of requests a
  completed row keeps its flag and its \<open>completed_at\<close> (\<open>row_persists\<close>).
\<close>

theorem completed_at_set_once:
  assumes "progress_constraints s" and "timestamps_consistent s"
  shows "timestamps_consistent (run cs s)
    \<and> (\<forall>p\<in>set (progress_tbl s).
          \<exists>p'. progress_rows (snd (update_video_progress e r vid s)) (up_user p) (up_video p) = [p']
             \<and> row_evolves e p p')
    \<and> (\<forall>p\<in>set (progress_tbl s).
          \<exists>p'. progress_rows (run cs s) (up_user p) (up_video p) = [p']
             \<and> row_persists p p')"
  using assms by (simp add: run_consistent step_row run_row)

text \<open>The completed row of user 7 and video 1 under one request and under three.\<close>

theorem completed_at_set_once_witness:
  "progress_constraints db_both_done \<and> timestamps_consistent db_both_done
   \<and> timestamps_consistent (run three_calls db_both_done)
   \<and> (\<exists>p'. progress_rows (snd (update_video_progress env0
              (mk_request 7 (Valid 20) (Valid False)) 1 db_both_done)) 7 1 = [p']
          \<and> row_evolves env0 (done_row 1 7 1) p')
   \<and> (\<exists>p'. progress_rows (run three_calls db_both_done) 7 1 = [p']
          \<and> row_persists (done_row 1 7 1) p')"
proof -
  have h1: "progress_constraints db_both_done"
    by (simp add: progress_constraints_def db_both_done_def done_row_def)
  have h2: "timestamps_consistent db_both_done"
    by (simp add: timestamps_consistent_def db_both_done_def done_row_def)
  have h3: "done_row 1 7 1 \<in> set (progress_tbl db_both_done)"
    by (simp add: db_both_done_def)
  from completed_at_set_once [OF h1 h2, of three_calls env0
      "mk_request 7 (Valid 20) (Valid False)" 1] h3
  have "timestamps_consistent (run three_calls db_both_done)"
    "\<exists>p'. progress_rows (snd (update_video_progress env0
              (mk_request 7 (Valid 20) (Valid False)) 1 db_both_done))
              (up_user (done_row 1 7 1)) (up_video (done_row 1 7 1)) = [p']
          \<and> row_evolves env0 (done_row 1 7 1) p'"
    "\<exists>p'. progress_rows (run three_calls db_both_done)
              (up_user (done_row 1 7 1)) (up_video (done_row 1 7 1)) = [p']
          \<and> row_persists (done_row 1 7 1) p'"
    by blast+
  with h1 h2 show ?thesis by (simp add: done_row_def)
qed

section \<open>Certificates\<close>

text \<open>
  C1, as amended. Take a training with at least one active video, in a store that
  satisfies the storage constraints of the video and progress tables, where the user has
  no completed progress row on an inactive video of the training and no certificate
  exists yet for the pair (user, training). Then a certificate exists for the pair after
  the completion check if and only if the user has a completed progress row for every
  active video of the training; and after any number of invocations of the check the
  pair has at most one certificate.
\<close>

theorem certificate_iff_all_completed:
  assumes "video_constraints s" and "progress_constraints s"
    and "0 < total_videos s tr"
    and "\<forall>p\<in>set (progress_tbl s). \<forall>v\<in>set (videos s).
        up_user p = u \<and> completed p \<and> v_id v = up_video p
          \<and> t_id (v_training v) = t_id tr \<longrightarrow> v_is_active v"
    and "certificate_rows s u (t_id tr) = []"
  shows "((certificate_rows (snd (check_training_completion e u tr s)) u (t_id tr) \<noteq> []) =
      (\<forall>v\<in>set (videos s). t_id (v_training v) = t_id tr \<and> v_is_active v \<longrightarrow>
         (\<exists>p\<in>set (progress_tbl s). up_user p = u \<and> up_video p = v_id v \<and> completed p)))
    \<and> length (certificate_rows (check_repeatedly es u tr s) u (t_id tr)) \<le> 1"
proof -
  have "(certificate_rows (snd (check_training_completion e u tr s)) u (t_id tr) \<noteq> []) =
      (completed_videos s u tr = total_videos s tr)"
    using assms(3,5) by (simp add: check_certificate_rows)
  moreover from assms(5) have "length (certificate_rows s u (t_id tr)) \<le> 1" by simp
  then have "length (certificate_rows (check_repeatedly es u tr s) u (t_id tr)) \<le> 1"
    by (rule check_repeatedly_le1)
  ultimately show ?thesis
    using completed_videos_eq_total[OF assms(1,2,4)] by simp
qed

text \<open>User 7 has completed the only active video of the training.\<close>

theorem certificate_iff_all_completed_witness:
  "video_constraints db_a_done \<and> progress_constraints db_a_done
   \<and> 0 < total_videos db_a_done demo_training
   \<and> \<not> (\<exists>p\<in>set (progress_tbl db_a_done). \<exists>v\<in>set (videos db_a_done).
        up_user p = 7 \<and> completed p \<and> v_id v = up_video p
          \<and> t_id (v_training v) = t_id demo_training \<and> \<not> v_is_active v)
   \<and> certificate_rows db_a_done 7 (t_id demo_training) = []
   \<and> certificate_rows (snd (check_training_completion env0 7 demo_training db_a_done)) 7
        (t_id demo_training) \<noteq> []
   \<and> length (certificate_rows (check_repeatedly [env0, env0, env0] 7 demo_training db_a_done)
        7 (t_id demo_training)) \<le> 1"
proof -
  have h1: "video_constraints db_a_done"
    by (simp add: video_constraints_def db_a_done_def video_a_def video_b_def)
  have h2: "progress_constraints db_a_done"
    by (simp add: progress_constraints_def db_a_done_def done_row_def)
  have h3: "0 < total_videos db_a_done demo_training"
    by (simp add: total_videos_def db_a_done_def video_a_def video_b_def demo_training_def)
  have h4: "\<forall>p\<in>set (progress_tbl db_a_done). \<forall>v\<in>set (videos db_a_done).
        up_user p = 7 \<and> completed p \<and> v_id v = up_video p
          \<and> t_id (v_training v) = t_id demo_training \<longrightarrow> v_is_active v"
    by (simp add: db_a_done_def video_a_def video_b_def done_row_def)
  have h5: "certificate_rows db_a_done 7 (t_id demo_training) = []"
    by (simp add: certificate_rows_def db_a_done_def)
  have all: "\<forall>v\<in>set (videos db_a_done).
      t_id (v_training v) = t_id demo_training \<and> v_is_active v \<longrightarrow>
         (\<exists>p\<in>set (progress_tbl db_a_done). up_user p = 7 \<and> up_video p = v_id v \<and> completed p)"
    by (simp add: db_a_done_def video_a_def video_b_def done_row_def)
  show ?thesis
    using h1 h2 h3 h4 h5 all
      certificate_iff_all_completed [OF h1 h2 h3 h4 h5, of env0 "[env0, env0, env0]"]
    by blast
qed

text \<open>
  C1, as stated, fails in both directions. In the first store user 7 has completed the
  only active video (and the inactive one), and the check creates no certificate. In the
  second store user 7 has no progress row at all and holds a certificate from before,
  which is still there after the check.
\<close>

theorem certificate_iff_fails:
  "total_videos db_both_done demo_training = 1
   \<and> video_a \<in> set (videos db_both_done) \<and> v_is_active video_a
   \<and> t_id (v_training video_a) = t_id demo_training
   \<and> progress_rows db_both_done 7 (v_id video_a) = [done_row 1 7 1]
   \<and> completed (done_row 1 7 1)
   \<and> certificate_rows (snd (check_training_completion env0 7 demo_training db_both_done))
        7 (t_id demo_training) = []
   \<and> total_videos db_stale_certificate demo_training = 1
   \<and> progress_tbl db_stale_certificate = []
   \<and> certificate_rows (snd (check_training_completion env0 7 demo_training db_stale_certificate))
        7 (t_id demo_training)
      = [\<lparr>uc_id = 1, uc_user = 7, uc_training = 1, certificate_code = ''0ld'',
           issued_at = 3\<rparr>]"
  by (simp add: total_videos_def completed_videos_def check_certificates certificate_rows_def
      progress_rows_def db_both_done_def db_stale_certificate_def video_a_def video_b_def
      demo_training_def done_row_def)

text \<open>
  C10. The training progress is the number of the user's completed rows on videos of
  the training, divided by the number of active videos, times 100. The first number
  does not depend on the \<open>is_active\<close> column of any video, so it counts completed rows on
  inactive videos. The completion check compares the same two numbers: it adds a
  certificate exactly when there is an active video, the two numbers are equal and the
  pair has no certificate. In the store where user 7 has completed the active and the
  inactive video of the training the numbers are 2 and 1, and the progress is 200.
\<close>

theorem training_progress_counts_inactive:
  "get_user_progress s tr u =
     (if total_videos s tr = 0 then 0
      else of_nat (completed_videos s u tr) / of_nat (total_videos s tr) * 100)
   \<and> completed_videos (s\<lparr>videos := map (\<lambda>v. v\<lparr>v_is_active := f v\<rparr>) (videos s)\<rparr>) u tr
       = completed_videos s u tr
   \<and> ((certificates (snd (check_training_completion e u tr s)) \<noteq> certificates s) =
        (0 < total_videos s tr \<and> completed_videos s u tr = total_videos s tr
          \<and> certificate_rows s u (t_id tr) = []))
   \<and> completed_videos db_both_done 7 demo_training = 2
   \<and> total_videos db_both_done demo_training = 1
   \<and> get_user_progress db_both_done demo_training 7 = 200
   \<and> 100 < get_user_progress db_both_done demo_training 7"
proof -
  have 1: "completed_videos (s\<lparr>videos := map (\<lambda>v. v\<lparr>v_is_active := f v\<rparr>) (videos s)\<rparr>) u tr
       = completed_videos s u tr"
    by (simp add: completed_videos_def filter_map comp_def length_concat)
  have 2: "(certificates (snd (check_training_completion e u tr s)) \<noteq> certificates s) =
        (0 < total_videos s tr \<and> completed_videos s u tr = total_videos s tr
          \<and> certificate_rows s u (t_id tr) = [])"
    by (simp add: check_certificates)
  have 3: "completed_videos db_both_done 7 demo_training = 2"
    "total_videos db_both_done demo_training = 1"
    by (simp_all add: completed_videos_def total_videos_def db_both_done_def video_a_def
        video_b_def demo_training_def done_row_def)
  then have 4: "get_user_progress db_both_done demo_training 7 = 200"
    by (simp add: get_user_progress_def)
  from 1 2 3 4 show ?thesis by (simp add: get_user_progress_def)
qed

end
